theory Spec2Isabelle
  imports Main "HOL-Library.Sublist"
begin

section \<open>JavaScript strings\<close>

text \<open>
  A JavaScript string is a sequence of UTF-16 code units. The scripts handle page text,
  so the code units are kept as numbers rather than as 8-bit characters: the byte-order
  mark U+FEFF and the Unicode spaces that \<open>trim\<close> and \<open>\s\<close> know are all above 255.
  \<open>str\<close> reads an ASCII literal of the source as such a sequence.
\<close>

type_synonym ustring = "nat list"

definition str :: "string \<Rightarrow> ustring" where
  "str s = map of_char s"

text \<open>
  \<open>WhiteSpace\<close> and \<open>LineTerminator\<close> of ECMAScript. \<open>String.prototype.trim\<close> strips
  both from the two ends, and the class \<open>\s\<close> of a regular expression is their union.
\<close>

definition isLineTerminator :: "nat \<Rightarrow> bool" where
  "isLineTerminator c = (c \<in> set [0x000A, 0x000D, 0x2028, 0x2029])"

definition isWhiteSpace :: "nat \<Rightarrow> bool" where
  "isWhiteSpace c =
     (c \<in> set [0x0009, 0x000B, 0x000C, 0x0020, 0x00A0, 0x1680, 0x202F, 0x205F, 0x3000, 0xFEFF]
      \<or> (0x2000 \<le> c \<and> c \<le> 0x200A))"

definition isSpace :: "nat \<Rightarrow> bool" where
  "isSpace c = (isWhiteSpace c \<or> isLineTerminator c)"

definition trim :: "ustring \<Rightarrow> ustring" where
  "trim s = rev (dropWhile isSpace (rev (dropWhile isSpace s)))"

definition startsWith :: "ustring \<Rightarrow> ustring \<Rightarrow> bool" where
  "startsWith s w = prefix w s"

fun join :: "ustring \<Rightarrow> ustring list \<Rightarrow> ustring" where
  "join sep [] = []"
| "join sep [x] = x"
| "join sep (x # y # ys) = x @ sep @ join sep (y # ys)"

section \<open>Regular expressions\<close>

text \<open>
  The regular expressions of the two scripts use literals, the classes \<open>\s\<close> and \<open>.\<close>,
  single characters under \<open>?\<close>, \<open>*\<close> and \<open>+\<close>, sequence, alternation and the anchors
  \<open>^\<close> and \<open>$\<close>; none has a flag other than \<open>g\<close>, so \<open>^\<close> and \<open>$\<close> match at the two
  ends of the input only, and \<open>.\<close> matches no line terminator.
\<close>

datatype cls = Space | Dot | Chr nat

fun in_cls :: "cls \<Rightarrow> nat \<Rightarrow> bool" where
  "in_cls Space c = isSpace c"
| "in_cls Dot c = (\<not> isLineTerminator c)"
| "in_cls (Chr k) c = (c = k)"

datatype rx =
    Lit ustring
  | Cls cls
  | Opt cls
  | Star cls
  | Plus cls
  | Seq rx rx
  | Alt rx rx
  | Bol
  | Eol

text \<open>
  A matcher state is the input still to be read, with a flag telling whether nothing of
  the input has been read yet (where \<open>^\<close> matches). Matching a pattern at a state gives
  the states after each way of matching, in the order in which a backtracking matcher
  tries them: the left alternative before the right one, the longest repetition first.
  The head of the list is the match JavaScript reports.
\<close>

type_synonym mstate = "bool \<times> ustring"

fun star :: "cls \<Rightarrow> mstate \<Rightarrow> mstate list" where
  "star k (b, []) = [(b, [])]"
| "star k (b, c # cs) =
     (if in_cls k c then star k (False, cs) @ [(b, c # cs)] else [(b, c # cs)])"

fun one :: "cls \<Rightarrow> mstate \<Rightarrow> mstate list" where
  "one k (b, []) = []"
| "one k (b, c # cs) = (if in_cls k c then [(False, cs)] else [])"

fun rx_match :: "rx \<Rightarrow> mstate \<Rightarrow> mstate list" where
  "rx_match (Lit w) (b, s) =
     (if prefix w s then [(b \<and> w = [], drop (length w) s)] else [])"
| "rx_match (Cls k) (b, s) = one k (b, s)"
| "rx_match (Opt k) (b, s) = one k (b, s) @ [(b, s)]"
| "rx_match (Star k) (b, s) = star k (b, s)"
| "rx_match (Plus k) (b, s) = concat (map (star k) (one k (b, s)))"
| "rx_match (Seq p q) (b, s) = concat (map (rx_match q) (rx_match p (b, s)))"
| "rx_match (Alt p q) (b, s) = rx_match p (b, s) @ rx_match q (b, s)"
| "rx_match Bol (b, s) = (if b then [(b, s)] else [])"
| "rx_match Eol (b, s) = (if s = [] then [(b, s)] else [])"

text \<open>
  The search of \<open>RegExpBuiltinExec\<close>: try the pattern at the current position, then one
  code unit further, up to and including the end of the input. The result is the number
  of code units skipped before the match and the state after it.
\<close>

fun rx_search :: "rx \<Rightarrow> mstate \<Rightarrow> (nat \<times> mstate) option" where
  "rx_search r (b, []) =
     (case rx_match r (b, []) of [] \<Rightarrow> None | m # _ \<Rightarrow> Some (0, m))"
| "rx_search r (b, c # cs) =
     (case rx_match r (b, c # cs) of
        [] \<Rightarrow> map_option (\<lambda>(n, m). (Suc n, m)) (rx_search r (False, cs))
      | m # _ \<Rightarrow> Some (0, m))"

text \<open>Whether the search finds a match at all, which is all that \<open>test\<close> reports.\<close>

fun found :: "rx \<Rightarrow> mstate \<Rightarrow> bool" where
  "found r (b, []) = (rx_match r (b, []) \<noteq> [])"
| "found r (b, c # cs) = (rx_match r (b, c # cs) \<noteq> [] \<or> found r (False, cs))"

text \<open>
  A \<open>RegExp\<close> object: its pattern, its \<open>g\<close> flag and its mutable \<open>lastIndex\<close>.
  A regular expression literal evaluates to a fresh object with \<open>lastIndex = 0\<close>.
\<close>

record regexp =
  source :: rx
  global :: bool
  lastIndex :: nat

definition regex :: "rx \<Rightarrow> regexp" where
  "regex r = \<lparr>source = r, global = False, lastIndex = 0\<rparr>"

definition regex_g :: "rx \<Rightarrow> regexp" where
  "regex_g r = \<lparr>source = r, global = True, lastIndex = 0\<rparr>"

text \<open>
  \<open>RegExpBuiltinExec\<close>: the search starts at \<open>lastIndex\<close> when the object is global and
  at 0 otherwise; a global object records the end of the match in \<open>lastIndex\<close> and resets
  it to 0 on failure. The result is the start and end index of the match and the object
  as it is left.
\<close>

definition regexp_exec :: "regexp \<Rightarrow> ustring \<Rightarrow> (nat \<times> nat) option \<times> regexp" where
  "regexp_exec R S =
     (let i = (if global R then lastIndex R else 0) in
      if length S < i then (None, if global R then R\<lparr>lastIndex := 0\<rparr> else R)
      else case rx_search (source R) (i = 0, drop i S) of
             None \<Rightarrow> (None, if global R then R\<lparr>lastIndex := 0\<rparr> else R)
           | Some (n, (_, rest)) \<Rightarrow>
               (Some (i + n, length S - length rest),
                if global R then R\<lparr>lastIndex := length S - length rest\<rparr> else R))"

definition regexp_test :: "regexp \<Rightarrow> ustring \<Rightarrow> bool \<times> regexp" where
  "regexp_test R S = (case regexp_exec R S of (m, R') \<Rightarrow> (m \<noteq> None, R'))"

text \<open>
  \<open>patterns.some((pattern) => pattern.test(line))\<close>: the patterns are tested in order
  up to the first that matches. The second component is the array of pattern objects as
  the tests leave them.
\<close>

fun some_test :: "regexp list \<Rightarrow> ustring \<Rightarrow> bool \<times> regexp list" where
  "some_test [] line = (False, [])"
| "some_test (p # ps) line =
     (case regexp_test p line of
        (True, p') \<Rightarrow> (True, p' # ps)
      | (False, p') \<Rightarrow> (case some_test ps line of (v, ps') \<Rightarrow> (v, p' # ps')))"

section \<open>The code-line classifier\<close>

fun any_of :: "ustring list \<Rightarrow> rx" where
  "any_of [] = Lit []"
| "any_of [w] = Lit w"
| "any_of (w # v # ws) = Alt (Lit w) (any_of (v # ws))"

text \<open>The twelve patterns of \<open>isJavaScriptLine\<close>, in the order of the source.\<close>

definition keyword_rx :: rx where
  "keyword_rx =
     Seq Bol (Seq (any_of (map str [''var'', ''let'', ''const'', ''function'', ''if'', ''else'',
                                     ''for'', ''while'', ''return'', ''class'']))
                  (Cls Space))"

definition jquery_rx :: rx where
  "jquery_rx =
     Alt (Lit (str ''jQuery'')) (Alt (Seq Bol (Lit (str ''$(''))) (Lit (str ''.ready('')))"

definition ajax_rx :: rx where
  "ajax_rx = any_of (map str [''.ajax('', ''.get('', ''.post(''])"

definition console_rx :: rx where
  "console_rx = Seq (Lit (str ''console.'')) (any_of (map str [''log'', ''error'', ''warn'']))"

definition document_rx :: rx where
  "document_rx =
     Seq (Lit (str ''document.''))
         (any_of (map str [''getElementById'', ''querySelector'', ''addEventListener'']))"

definition window_rx :: rx where
  "window_rx =
     Seq (Lit (str ''window.''))
         (any_of (map str [''location'', ''addEventListener'', ''setTimeout'']))"

definition promise_rx :: rx where
  "promise_rx =
     Alt (Lit (str ''.then(''))
      (Alt (Lit (str ''.catch(''))
       (Alt (Seq (Lit (str ''async'')) (Cls Space))
            (Seq (Lit (str ''await'')) (Cls Space))))"

definition function_expr_rx :: rx where
  "function_expr_rx = Seq Bol (Seq (Lit (str ''function'')) (Seq (Star Space) (Lit (str ''(''))))"

definition arrow_rx :: rx where
  "arrow_rx = Seq (Lit (str ''=>'')) (Seq (Star Space) (Lit (str ''{'')))"

definition object_rx :: rx where
  "object_rx = Seq Bol (Seq (Lit (str ''{'')) (Seq (Star Dot) (Seq (Lit (str ''}'')) Eol)))"

definition close_brace_rx :: rx where
  "close_brace_rx = Seq Bol (Seq (Lit (str ''}'')) Eol)"

definition semicolon_rx :: rx where
  "semicolon_rx = Seq (Lit (str '';'')) (Seq (Star Space) Eol)"

definition jsPatterns :: "regexp list" where
  "jsPatterns =
     map regex
       [keyword_rx, jquery_rx, ajax_rx, console_rx, document_rx, window_rx, promise_rx,
        function_expr_rx, arrow_rx, object_rx, close_brace_rx, semicolon_rx]"

definition isJavaScriptLine :: "ustring \<Rightarrow> bool" where
  "isJavaScriptLine line = fst (some_test jsPatterns line)"

section \<open>\<open>split\<close> and \<open>replace\<close> with a regular expression\<close>

text \<open>
  \<open>S.split(r)\<close>: the pattern is tried at each position \<open>q\<close> of a non-empty input; where it
  matches up to \<open>e\<close>, the piece collected since the previous separator is emitted and the
  scan resumes at \<open>e\<close>, except that a match ending where the piece starts (\<open>e = p\<close>) only
  moves \<open>q\<close> on. \<open>acc\<close> is the piece \<open>S[p..q)\<close>. An empty match behind a non-empty piece
  emits the piece and, being found again at the new \<open>p\<close>, then moves on by one code unit.
\<close>

fun split_loop :: "rx \<Rightarrow> ustring \<Rightarrow> mstate \<Rightarrow> ustring list" where
  "split_loop r acc (b, []) = [acc]"
| "split_loop r acc (b, c # cs) =
     (case rx_match r (b, c # cs) of
        [] \<Rightarrow> split_loop r (acc @ [c]) (False, cs)
      | (b', rest) # _ \<Rightarrow>
          if length rest < length (c # cs) then acc # split_loop r [] (b', rest)
          else if acc = [] then split_loop r [c] (False, cs)
          else acc # split_loop r [c] (False, cs))"

definition split :: "ustring \<Rightarrow> rx \<Rightarrow> ustring list" where
  "split S r =
     (if S = [] then (if rx_match r (True, []) = [] then [[]] else [])
      else split_loop r [] (True, S))"

text \<open>
  \<open>S.replace(R, rep)\<close> for a replacement string without \<open>$\<close>. With the \<open>g\<close> flag every
  match found from left to right is replaced, the search resuming at the end of the
  match, or one code unit further after an empty match; without it, the first match only.
\<close>

fun replace_loop :: "rx \<Rightarrow> ustring \<Rightarrow> mstate \<Rightarrow> ustring" where
  "replace_loop r rep (b, []) = (case rx_match r (b, []) of [] \<Rightarrow> [] | _ # _ \<Rightarrow> rep)"
| "replace_loop r rep (b, c # cs) =
     (case rx_match r (b, c # cs) of
        [] \<Rightarrow> c # replace_loop r rep (False, cs)
      | (b', rest) # _ \<Rightarrow>
          if length rest < length (c # cs) then rep @ replace_loop r rep (b', rest)
          else rep @ c # replace_loop r rep (False, cs))"

definition replace :: "ustring \<Rightarrow> regexp \<Rightarrow> ustring \<Rightarrow> ustring" where
  "replace S R rep =
     (if global R then replace_loop (source R) rep (True, S)
      else case rx_search (source R) (True, S) of
             None \<Rightarrow> S
           | Some (n, (_, rest)) \<Rightarrow> take n S @ rep @ rest)"

section \<open>Text normalization and filtering\<close>

datatype variant = Interplex | Ennovi

definition newline_rx :: rx where
  "newline_rx = Seq (Opt (Chr 0x0D)) (Lit [0x0A])"

text \<open>
  \<open>lines\<close> of the two scripts: \<open>textScraper.js\<close> (the \<open>interplex_\<close> files) splits, trims
  and drops the empty lines; the other script (the \<open>ennovi_\<close> files) also drops the lines
  that \<open>isJavaScriptLine\<close> flags.
\<close>

fun lines :: "variant \<Rightarrow> ustring \<Rightarrow> ustring list" where
  "lines Interplex contentText =
     filter (\<lambda>line. length line > 0) (map trim (split contentText newline_rx))"
| "lines Ennovi contentText =
     filter (\<lambda>line. \<not> isJavaScriptLine line)
       (filter (\<lambda>line. length line > 0) (map trim (split contentText newline_rx)))"

text \<open>The target list, from the content of \<open>websites.txt\<close> (\<open>None\<close> when it cannot be read).\<close>

definition websites :: "ustring option \<Rightarrow> ustring list" where
  "websites file =
     (case file of
        None \<Rightarrow> []
      | Some fileContent \<Rightarrow>
          filter (\<lambda>line. length line > 0 \<and> \<not> startsWith line (str ''#''))
            (map trim (split fileContent newline_rx)))"

section \<open>File name and CSV content\<close>

text \<open>The parts of a parsed \<open>URL\<close> object.\<close>

record URL =
  protocol :: ustring
  host :: ustring
  pathname :: ustring
  search :: ustring
  hash :: ustring

definition slash_rx :: rx where
  "slash_rx = Lit (str ''/'')"

definition underscores_rx :: rx where
  "underscores_rx = Alt (Seq Bol (Plus (Chr 0x5F))) (Seq (Plus (Chr 0x5F)) Eol)"

definition pagePath :: "URL \<Rightarrow> ustring" where
  "pagePath urlObj =
     (let p = replace (replace (pathname urlObj) (regex_g slash_rx) (str ''_''))
                (regex_g underscores_rx) []
      in if p = [] then str ''homepage'' else p)"

fun name_prefix :: "variant \<Rightarrow> ustring" where
  "name_prefix Interplex = str ''interplex_''"
| "name_prefix Ennovi = str ''ennovi_''"

text \<open>
  \<open>path.join(outputDir, name)\<close>: the name holds no \<open>/\<close> and is neither \<open>.\<close> nor \<open>..\<close>, so the
  join is the directory, a separator and the name.
\<close>

definition filePath :: "variant \<Rightarrow> ustring \<Rightarrow> URL \<Rightarrow> ustring" where
  "filePath v outputDir urlObj =
     outputDir @ str ''/'' @ name_prefix v @ pagePath urlObj @ str ''_content.csv''"

definition dquote :: ustring where
  "dquote = [0x22]"

definition newline :: ustring where
  "newline = [0x0A]"

definition BOM :: ustring where
  "BOM = [0xFEFF]"

definition csv_field :: "ustring \<Rightarrow> ustring" where
  "csv_field text = dquote @ replace text (regex_g (Lit dquote)) (dquote @ dquote) @ dquote"

definition header_row :: ustring where
  "header_row = dquote @ str ''Extracted Text'' @ dquote"

fun csvContent :: "variant \<Rightarrow> ustring list \<Rightarrow> ustring" where
  "csvContent Interplex ls = header_row @ newline @ join newline (map csv_field ls)"
| "csvContent Ennovi ls = BOM @ header_row @ newline @ join newline (map csv_field ls)"

text \<open>
  The specification's words for the two derivations above, to compare the code with:
  the slug is the path with every \<open>/\<close> replaced by \<open>_\<close> and the underscores at both
  ends stripped, \<open>homepage\<close> when nothing is left; a CSV field is the line between double
  quotes with every double quote of the line doubled.
\<close>

definition slug_spec :: "ustring \<Rightarrow> ustring" where
  "slug_spec path =
     (let p = rev (dropWhile (\<lambda>c. c = 0x5F)
                (rev (dropWhile (\<lambda>c. c = 0x5F) (map (\<lambda>c. if c = 0x2F then 0x5F else c) path))))
      in if p = [] then str ''homepage'' else p)"

definition quoted_spec :: "ustring \<Rightarrow> ustring" where
  "quoted_spec line = [0x22] @ concat (map (\<lambda>c. if c = 0x22 then [0x22, 0x22] else [c]) line) @ [0x22]"

section \<open>Content isolation\<close>

text \<open>
  The subtree of the container element: text nodes, comments, and elements with their
  tag name (lower case, as the HTML parser leaves it), attributes and children. Every
  node is an object of its own: the number is its identity, and \<open>remove()\<close> takes
  this very node out of its parent, wherever the node is.
\<close>

datatype node =
    Text nat ustring
  | Comment nat ustring
  | Element nat ustring "(ustring \<times> ustring) list" "node list"

fun node_id :: "node \<Rightarrow> nat" where
  "node_id (Text i d) = i"
| "node_id (Comment i d) = i"
| "node_id (Element i t as cs) = i"

fun getAttribute :: "node \<Rightarrow> ustring \<Rightarrow> ustring option" where
  "getAttribute (Element i t as cs) a = map_of as a"
| "getAttribute (Text i d) a = None"
| "getAttribute (Comment i d) a = None"

fun tagName :: "node \<Rightarrow> ustring option" where
  "tagName (Element i t as cs) = Some t"
| "tagName (Text i d) = None"
| "tagName (Comment i d) = None"

text \<open>The descendants of a node in tree order, and the identities in a subtree.\<close>

fun descendants :: "node \<Rightarrow> node list" where
  "descendants (Element i t as cs) = concat (map (\<lambda>c. c # descendants c) cs)"
| "descendants (Text i d) = []"
| "descendants (Comment i d) = []"

definition ids :: "node \<Rightarrow> nat list" where
  "ids n = node_id n # map node_id (descendants n)"

text \<open>The class attribute is a list of tokens separated by ASCII whitespace.\<close>

definition isAsciiWhitespace :: "nat \<Rightarrow> bool" where
  "isAsciiWhitespace c = (c \<in> set [0x09, 0x0A, 0x0C, 0x0D, 0x20])"

fun tokens :: "ustring \<Rightarrow> ustring \<Rightarrow> ustring list" where
  "tokens acc [] = (if acc = [] then [] else [acc])"
| "tokens acc (c # cs) =
     (if isAsciiWhitespace c then (if acc = [] then tokens [] cs else acc # tokens [] cs)
      else tokens (acc @ [c]) cs)"

definition classList :: "node \<Rightarrow> ustring list" where
  "classList n = (case getAttribute n (str ''class'') of None \<Rightarrow> [] | Some v \<Rightarrow> tokens [] v)"

text \<open>
  The selectors of the scripts are lists (\<open>,\<close>) of compound selectors without
  combinators, made of a tag name, \<open>[attr='value']\<close>, \<open>.class\<close> and \<open>#id\<close>: whether an
  element matches depends on the element and on the mode of its document. In a
  quirks-mode document class names and ids are compared without regard to ASCII case,
  otherwise exactly; the attribute value of \<open>[role='...']\<close> is compared exactly in both.
\<close>

datatype simple = Tag ustring | Attr ustring ustring | Class ustring | Id ustring

type_synonym selector = "simple list list"

definition toAsciiLowerCase :: "ustring \<Rightarrow> ustring" where
  "toAsciiLowerCase s = map (\<lambda>c. if 0x41 \<le> c \<and> c \<le> 0x5A then c + 0x20 else c) s"

definition same_name :: "bool \<Rightarrow> ustring \<Rightarrow> ustring \<Rightarrow> bool" where
  "same_name quirks a b = (if quirks then toAsciiLowerCase a = toAsciiLowerCase b else a = b)"

fun matches_simple :: "bool \<Rightarrow> node \<Rightarrow> simple \<Rightarrow> bool" where
  "matches_simple quirks n (Tag t) = (tagName n = Some t)"
| "matches_simple quirks n (Attr a v) = (getAttribute n a = Some v)"
| "matches_simple quirks n (Class c) = list_ex (same_name quirks c) (classList n)"
| "matches_simple quirks n (Id i) =
     (case getAttribute n (str ''id'') of None \<Rightarrow> False | Some v \<Rightarrow> same_name quirks i v)"

definition matches :: "bool \<Rightarrow> selector \<Rightarrow> node \<Rightarrow> bool" where
  "matches quirks sel n = list_ex (\<lambda>compound. list_all (matches_simple quirks n) compound) sel"

text \<open>
  \<open>root.querySelectorAll(sel)\<close>: the descendants of the root that match, in tree order,
  as the objects they are. The root itself is not among its descendants.
\<close>

definition querySelectorAll :: "bool \<Rightarrow> selector \<Rightarrow> node \<Rightarrow> nat list" where
  "querySelectorAll quirks sel root = map node_id (filter (matches quirks sel) (descendants root))"

text \<open>
  \<open>x.remove()\<close> in a tree: the node with the identity of \<open>x\<close> is taken out of its
  parent, with its subtree. A tree that does not hold the node stays as it is, and so
  does a root, which has no parent.
\<close>

fun remove_node :: "nat \<Rightarrow> node \<Rightarrow> node" where
  "remove_node x (Element i t as cs) =
     Element i t as (map (remove_node x) (filter (\<lambda>c. node_id c \<noteq> x) cs))"
| "remove_node x (Text i d) = Text i d"
| "remove_node x (Comment i d) = Comment i d"

text \<open>
  \<open>textContent\<close> of an element is the text of its text-node descendants in tree order;
  comments among them do not count.
\<close>

fun descendant_text :: "node \<Rightarrow> ustring" where
  "descendant_text (Text i d) = d"
| "descendant_text (Comment i d) = []"
| "descendant_text (Element i t as cs) = concat (map descendant_text cs)"

fun textContent :: "node \<Rightarrow> ustring" where
  "textContent (Text i d) = d"
| "textContent (Comment i d) = d"
| "textContent (Element i t as cs) = concat (map descendant_text cs)"

definition scripts_sel :: selector where
  "scripts_sel = [[Tag (str ''script'')], [Tag (str ''style'')], [Tag (str ''noscript'')]]"

definition headers_sel :: selector where
  "headers_sel =
     [[Tag (str ''header'')], [Attr (str ''role'') (str ''banner'')], [Class (str ''header'')],
      [Id (str ''header'')], [Class (str ''site-header'')]]"

definition footers_sel :: selector where
  "footers_sel =
     [[Tag (str ''footer'')], [Attr (str ''role'') (str ''contentinfo'')], [Class (str ''footer'')],
      [Id (str ''footer'')], [Class (str ''site-footer'')]]"

definition hiddenSections_sel :: selector where
  "hiddenSections_sel =
     [[Class (str ''elementor-hidden-desktop''), Class (str ''elementor-hidden-tablet''),
       Class (str ''elementor-hidden-mobile'')]]"

text \<open>
  \<open>el.cloneNode(true)\<close> makes new nodes, one for each node of the subtree of \<open>el\<close>, with
  the same tags, attributes, text and shape. The new nodes are objects that did not
  exist before: the identity of each is that of its original plus a number above every
  identity in the subtree.
\<close>

fun relabel :: "(nat \<Rightarrow> nat) \<Rightarrow> node \<Rightarrow> node" where
  "relabel f (Element i t as cs) = Element (f i) t as (map (relabel f) cs)"
| "relabel f (Text i d) = Text (f i) d"
| "relabel f (Comment i d) = Comment (f i) d"

definition cloneNode :: "node \<Rightarrow> node" where
  "cloneNode el = relabel (\<lambda>i. i + Suc (fold max (ids el) 0)) el"

text \<open>
  The function that the second script evaluates on the container works on two trees:
  the subtree of \<open>el\<close> in the page and the copy. \<open>remove()\<close> on a node changes the tree
  that holds the node. The result of the function is the text; the second component is
  the element \<open>el\<close> as the page is left with it.
\<close>

record dom =
  page_el :: node
  clone :: node

definition remove_from_dom :: "nat \<Rightarrow> dom \<Rightarrow> dom" where
  "remove_from_dom x d = \<lparr>page_el = remove_node x (page_el d), clone = remove_node x (clone d)\<rparr>"

definition forEach_remove :: "nat list \<Rightarrow> dom \<Rightarrow> dom" where
  "forEach_remove xs d = foldl (\<lambda>d x. remove_from_dom x d) d xs"

text \<open>\<open>clone.querySelectorAll(sel).forEach((x) => x.remove())\<close>.\<close>

definition remove_all :: "bool \<Rightarrow> selector \<Rightarrow> dom \<Rightarrow> dom" where
  "remove_all quirks sel d = forEach_remove (querySelectorAll quirks sel (clone d)) d"

definition extract_text :: "bool \<Rightarrow> node \<Rightarrow> ustring \<times> node" where
  "extract_text quirks el =
     (let d = \<lparr>page_el = el, clone = cloneNode el\<rparr>;
          d = remove_all quirks scripts_sel d;
          d = remove_all quirks headers_sel d;
          d = remove_all quirks footers_sel d;
          d = remove_all quirks hiddenSections_sel d
      in (textContent (clone d), page_el d))"

section \<open>The run over the target list\<close>

text \<open>
  What the browser and the platform answer for a URL. Each step of the \<open>try\<close> block
  that calls them may throw, and the answer is then the message of the error:
  \<open>goto\<close> is \<open>page.goto\<close>; \<open>stabilize\<close> is the pause and \<open>autoScroll\<close> of the second
  script; \<open>query\<close> is \<open>page.$\<close> with a selector, giving the element or nothing;
  \<open>evaluate\<close> is \<open>contentHandle.evaluate\<close>, giving the element of the handle as the page
  has it when the function runs on it, which for the second script is after the
  accordions and tabs were clicked (their own errors are caught where they occur);
  \<open>quirksMode\<close> tells whether the document is in quirks mode; \<open>innerText\<close> is the rendered
  text of an element; \<open>new_URL\<close> parses the URL; \<open>write_error\<close> is the error of
  \<open>fs.writeFileSync\<close> for a path and a content, if it fails.
\<close>

record env =
  goto :: "ustring \<Rightarrow> ustring option"
  stabilize :: "ustring \<Rightarrow> ustring option"
  query :: "ustring \<Rightarrow> ustring \<Rightarrow> ustring + node option"
  evaluate :: "ustring \<Rightarrow> node \<Rightarrow> ustring + node"
  quirksMode :: "ustring \<Rightarrow> bool"
  innerText :: "node \<Rightarrow> ustring"
  new_URL :: "ustring \<Rightarrow> ustring + URL"
  write_error :: "ustring \<Rightarrow> ustring \<Rightarrow> ustring option"
  outputDir :: ustring

fun container_selectors :: "variant \<Rightarrow> ustring \<times> ustring" where
  "container_selectors Interplex =
     (str ''div[data-elementor-post-type='' @ [0x27] @ str ''page'' @ [0x27] @ str '']'',
      str ''div[data-elementor-post-type='' @ [0x27] @ str ''elementor_library'' @ [0x27] @ str '']'')"
| "container_selectors Ennovi =
     (str ''div[data-elementor-type='' @ [0x27] @ str ''wp-page'' @ [0x27] @ str '']'',
      str ''div[data-elementor-type='' @ [0x27] @ str ''single-post'' @ [0x27] @ str '']'')"

definition contentHandle :: "variant \<Rightarrow> env \<Rightarrow> ustring \<Rightarrow> ustring + node option" where
  "contentHandle v e u =
     (case query e u (fst (container_selectors v)) of
        Inl message \<Rightarrow> Inl message
      | Inr (Some el) \<Rightarrow> Inr (Some el)
      | Inr None \<Rightarrow> query e u (snd (container_selectors v)))"

text \<open>
  The function evaluated on the element: \<open>el.innerText\<close> in \<open>textScraper.js\<close>, the
  isolation above in the other script.
\<close>

fun contentText :: "variant \<Rightarrow> env \<Rightarrow> ustring \<Rightarrow> node \<Rightarrow> ustring" where
  "contentText Interplex e u el = innerText e el"
| "contentText Ennovi e u el = fst (extract_text (quirksMode e u) el)"

text \<open>
  One pass of the loop body for a URL ends in one of four ways: an exception reaches the
  \<open>catch\<close>, no container is found, no line is left, or the CSV file is written.
\<close>

datatype outcome =
    Threw ustring
  | NoContainer
  | NoText
  | Saved ustring ustring

definition save :: "variant \<Rightarrow> env \<Rightarrow> ustring \<Rightarrow> ustring list \<Rightarrow> outcome" where
  "save v e u ls =
     (case new_URL e u of
        Inl message \<Rightarrow> Threw message
      | Inr urlObj \<Rightarrow>
          (let path = filePath v (outputDir e) urlObj; content = csvContent v ls in
           case write_error e path content of
             Some message \<Rightarrow> Threw message
           | None \<Rightarrow> Saved path content))"

definition process :: "variant \<Rightarrow> env \<Rightarrow> ustring \<Rightarrow> outcome" where
  "process v e u =
     (case contentHandle v e u of
        Inl message \<Rightarrow> Threw message
      | Inr None \<Rightarrow> NoContainer
      | Inr (Some handle) \<Rightarrow>
          (case evaluate e u handle of
             Inl message \<Rightarrow> Threw message
           | Inr el \<Rightarrow>
               (let ls = lines v (contentText v e u el) in
                if length ls = 0 then NoText else save v e u ls)))"

fun scrape :: "variant \<Rightarrow> env \<Rightarrow> ustring \<Rightarrow> outcome" where
  "scrape Interplex e u =
     (case goto e u of
        Some message \<Rightarrow> Threw message
      | None \<Rightarrow> process Interplex e u)"
| "scrape Ennovi e u =
     (case goto e u of
        Some message \<Rightarrow> Threw message
      | None \<Rightarrow>
          (case stabilize e u of
             Some message \<Rightarrow> Threw message
           | None \<Rightarrow> process Ennovi e u))"

record failure =
  url :: ustring
  reason :: ustring

text \<open>
  The state of a run: the calls of \<open>fs.writeFileSync\<close> that succeeded so far, as path
  and content in the order of the calls, and the array \<open>failedUrls\<close> (which only the
  second script has).
\<close>

record run_state =
  written :: "(ustring \<times> ustring) list"
  failedUrls :: "failure list"

definition writeFileSync :: "ustring \<Rightarrow> ustring \<Rightarrow> run_state \<Rightarrow> run_state" where
  "writeFileSync path content st = st\<lparr>written := written st @ [(path, content)]\<rparr>"

definition push_failure :: "ustring \<Rightarrow> ustring \<Rightarrow> run_state \<Rightarrow> run_state" where
  "push_failure u r st = st\<lparr>failedUrls := failedUrls st @ [\<lparr>url = u, reason = r\<rparr>]\<rparr>"

fun visit :: "variant \<Rightarrow> env \<Rightarrow> run_state \<Rightarrow> ustring \<Rightarrow> run_state" where
  "visit Interplex e st u =
     (case scrape Interplex e u of
        Saved path content \<Rightarrow> writeFileSync path content st
      | Threw message \<Rightarrow> st
      | NoContainer \<Rightarrow> st
      | NoText \<Rightarrow> st)"
| "visit Ennovi e st u =
     (case scrape Ennovi e u of
        Saved path content \<Rightarrow> writeFileSync path content st
      | Threw message \<Rightarrow> push_failure u message st
      | NoContainer \<Rightarrow> push_failure u (str ''No matching Elementor div found'') st
      | NoText \<Rightarrow> push_failure u (str ''No visible text found'') st)"

fun digits :: "nat \<Rightarrow> ustring" where
  "digits n = (if n < 10 then [0x30 + n] else digits (n div 10) @ [0x30 + n mod 10])"

declare digits.simps [simp del]

definition log_block :: "failure \<Rightarrow> ustring" where
  "log_block item = str ''URL: '' @ url item @ newline @ str ''Reason: '' @ reason item @ newline"

definition logContent :: "failure list \<Rightarrow> ustring" where
  "logContent failed =
     str ''Failed to scrape '' @ digits (length failed) @ str '' URL(s):'' @ newline @ newline
     @ join newline (map log_block failed)"

definition logFilePath :: "env \<Rightarrow> ustring" where
  "logFilePath e = outputDir e @ str ''/'' @ str ''failed_scrapes.txt''"

definition start :: run_state where
  "start = \<lparr>written = [], failedUrls = []\<rparr>"

text \<open>
  The log is written after the loop, outside every \<open>try\<close>: when this write fails the
  error ends the run, and nothing more is written.
\<close>

fun run :: "variant \<Rightarrow> env \<Rightarrow> ustring list \<Rightarrow> run_state" where
  "run Interplex e ws = (if length ws = 0 then start else foldl (visit Interplex e) start ws)"
| "run Ennovi e ws =
     (if length ws = 0 then start
      else let st = foldl (visit Ennovi e) start ws in
           if length (failedUrls st) > 0
           then (case write_error e (logFilePath e) (logContent (failedUrls st)) of
                   None \<Rightarrow> writeFileSync (logFilePath e) (logContent (failedUrls st)) st
                 | Some message \<Rightarrow> st)
           else st)"

text \<open>The files after a run: each path holds what was written to it last.\<close>

definition files :: "run_state \<Rightarrow> ustring \<rightharpoonup> ustring" where
  "files st = map_of (rev (written st))"

section \<open>The specification's view of isolation and of a run\<close>

text \<open>
  Taking out of a tree every descendant that satisfies a predicate, and the elements
  the specification wants out of the copy: \<open>script\<close>, \<open>style\<close> and \<open>noscript\<close>; headers
  and footers by tag, ARIA role, class or id; and the elements that carry the three
  hidden classes together. Classes and ids are those the document's mode makes equal
  to the names given.
\<close>

fun without :: "(node \<Rightarrow> bool) \<Rightarrow> node \<Rightarrow> node" where
  "without P (Element i t as cs) = Element i t as (map (without P) (filter (\<lambda>c. \<not> P c) cs))"
| "without P (Text i d) = Text i d"
| "without P (Comment i d) = Comment i d"

definition has_class :: "bool \<Rightarrow> node \<Rightarrow> ustring \<Rightarrow> bool" where
  "has_class quirks n c = list_ex (same_name quirks c) (classList n)"

definition has_id :: "bool \<Rightarrow> node \<Rightarrow> ustring \<Rightarrow> bool" where
  "has_id quirks n i =
     (case getAttribute n (str ''id'') of None \<Rightarrow> False | Some v \<Rightarrow> same_name quirks i v)"

definition removable_spec :: "bool \<Rightarrow> node \<Rightarrow> bool" where
  "removable_spec quirks n =
     (tagName n \<in> set (map (\<lambda>t. Some (str t)) [''script'', ''style'', ''noscript'', ''header'', ''footer''])
      \<or> getAttribute n (str ''role'') \<in> set (map (\<lambda>r. Some (str r)) [''banner'', ''contentinfo''])
      \<or> list_ex (has_class quirks n) (map str [''header'', ''site-header'', ''footer'', ''site-footer''])
      \<or> list_ex (has_id quirks n) (map str [''header'', ''footer''])
      \<or> list_all (has_class quirks n)
           (map str [''elementor-hidden-desktop'', ''elementor-hidden-tablet'',
                     ''elementor-hidden-mobile'']))"

text \<open>
  The failure records and the CSV artifacts that the specification expects of a run
  over a target list: one failure record, in order, for each URL whose pass does not end
  in a written CSV file, and one CSV artifact for each of the others.
\<close>

fun reason_of :: "outcome \<Rightarrow> ustring option" where
  "reason_of (Threw message) = Some message"
| "reason_of NoContainer = Some (str ''No matching Elementor div found'')"
| "reason_of NoText = Some (str ''No visible text found'')"
| "reason_of (Saved path content) = None"

definition failed_spec :: "env \<Rightarrow> ustring list \<Rightarrow> failure list" where
  "failed_spec e ws =
     concat (map (\<lambda>u. case reason_of (scrape Ennovi e u) of
                         None \<Rightarrow> []
                       | Some r \<Rightarrow> [\<lparr>url = u, reason = r\<rparr>]) ws)"

fun artifact_of :: "outcome \<Rightarrow> (ustring \<times> ustring) list" where
  "artifact_of (Saved path content) = [(path, content)]"
| "artifact_of (Threw message) = []"
| "artifact_of NoContainer = []"
| "artifact_of NoText = []"

definition csv_artifacts :: "variant \<Rightarrow> env \<Rightarrow> ustring list \<Rightarrow> (ustring \<times> ustring) list" where
  "csv_artifacts v e ws = concat (map (\<lambda>u. artifact_of (scrape v e u)) ws)"

section \<open>An example page and an example run\<close>

text \<open>
  A container with a script, a header, a section hidden on every breakpoint, a section
  hidden on the desktop only, a comment and a footer by id. On a desktop viewport the
  browser renders the header, the footer and the last text, each block on a line.
\<close>

definition demo_container :: node where
  "demo_container =
     Element 1 (str ''div'') [(str ''data-elementor-type'', str ''wp-page'')]
       [Element 2 (str ''script'') [] [Text 3 (str ''var a = 1;'')],
        Element 4 (str ''header'') [] [Text 5 (str ''Menu'')],
        Element 6 (str ''div'')
          [(str ''class'',
            str ''elementor-hidden-desktop elementor-hidden-tablet elementor-hidden-mobile'')]
          [Text 7 (str ''Nowhere'')],
        Element 8 (str ''div'') [(str ''class'', str ''elementor-hidden-desktop'')]
          [Text 9 (str ''Tab text'')],
        Comment 10 (str ''note''),
        Element 11 (str ''p'') [(str ''id'', str ''footer'')] [Text 12 (str ''Imprint'')],
        Text 13 (str ''Welcome'')]"

definition demo_rendered :: ustring where
  "demo_rendered = str ''Menu'' @ newline @ str ''Imprint'' @ newline @ str ''Welcome''"


definition url_a :: ustring where
  "url_a = str ''https://a.example/p?x=1''"

definition url_b :: ustring where
  "url_b = str ''https://b.example/p#top''"

definition url_down :: ustring where
  "url_down = str ''https://down.example/''"

definition url_none :: ustring where
  "url_none = str ''https://a.example/none''"

definition url_code :: ustring where
  "url_code = str ''https://a.example/code''"

definition url_gone :: ustring where
  "url_gone = str ''https://a.example/gone''"

definition demo_env :: env where
  "demo_env =
     \<lparr>goto = (\<lambda>u. if u = url_down then Some (str ''Timeout 10000ms exceeded'') else None),
      stabilize = (\<lambda>u. None),
      query = (\<lambda>u sel.
                 if u = url_a then Inr (Some (Element 1 (str ''div'') [] [Text 2 (str ''Page A'')]))
                 else if u = url_b then Inr (Some (Element 1 (str ''div'') [] [Text 2 (str ''Page B'')]))
                 else if u = url_code then Inr (Some (Element 1 (str ''div'') [] [Text 2 (str ''var x;'')]))
                 else if u = url_gone then Inr (Some (Element 1 (str ''div'') [] [Text 2 (str ''Gone'')]))
                 else Inr None),
      evaluate = (\<lambda>u el. if u = url_gone then Inl (str ''Execution context was destroyed'')
                          else Inr el),
      quirksMode = (\<lambda>u. False),
      innerText = (\<lambda>el. if el = demo_container then demo_rendered else textContent el),
      new_URL = (\<lambda>u.
                 if u = url_a
                 then Inr \<lparr>protocol = str ''https:'', host = str ''a.example'', pathname = str ''/p'',
                          search = str ''?x=1'', hash = []\<rparr>
                 else if u = url_b
                 then Inr \<lparr>protocol = str ''https:'', host = str ''b.example'', pathname = str ''/p'',
                          search = [], hash = str ''#top''\<rparr>
                 else Inl (str ''Invalid URL'')),
      write_error = (\<lambda>path content. None),
      outputDir = str ''scraped_text''\<rparr>"

section \<open>Testing a line against patterns without flags\<close>

lemma rx_search_found: "(rx_search r st \<noteq> None) = found r st"
  by (induction r st rule: rx_search.induct) (auto split: list.splits)

lemma regexp_test_regex: "regexp_test (regex r) S = (found r (True, S), regex r)"
  by (simp add: regexp_test_def regexp_exec_def regex_def rx_search_found [symmetric]
      split: option.splits prod.splits)

lemma some_test_regex:
  "some_test (map regex rs) line = (list_ex (\<lambda>r. found r (True, line)) rs, map regex rs)"
  by (induction rs) (auto simp: regexp_test_regex split: prod.splits bool.splits)

lemma some_test_jsPatterns: "some_test jsPatterns line = (isJavaScriptLine line, jsPatterns)"
  unfolding isJavaScriptLine_def jsPatterns_def some_test_regex by (simp only: fst_conv)

lemma isJavaScriptLine_iff:
  "isJavaScriptLine line =
     list_ex (\<lambda>r. found r (True, line))
       [keyword_rx, jquery_rx, ajax_rx, console_rx, document_rx, window_rx, promise_rx,
        function_expr_rx, arrow_rx, object_rx, close_brace_rx, semicolon_rx]"
  by (simp only: isJavaScriptLine_def jsPatterns_def some_test_regex fst_conv)

lemmas rx_defs =
  keyword_rx_def jquery_rx_def ajax_rx_def console_rx_def document_rx_def window_rx_def
  promise_rx_def function_expr_rx_def arrow_rx_def object_rx_def close_brace_rx_def
  semicolon_rx_def

lemmas eval_defs =
  isJavaScriptLine_iff rx_defs str_def isSpace_def isWhiteSpace_def isLineTerminator_def
  split_def newline_def newline_rx_def trim_def

text \<open>
  A pattern object with the \<open>g\<close> flag remembers where its last match ended, and a
  second test of the same string starts there: the verdict changes.
\<close>

lemma global_test_is_stateful:
  "fst (regexp_test (regex_g (Lit (str ''a''))) (str ''a'')) \<and>
   \<not> fst (regexp_test (snd (regexp_test (regex_g (Lit (str ''a''))) (str ''a''))) (str ''a''))"
  by (simp add: regexp_test_def regexp_exec_def regex_g_def str_def)

section \<open>What the classifier flags\<close>

lemma found_if_match: "rx_match r (b, s) \<noteq> [] \<Longrightarrow> found r (b, s)"
  by (cases s) simp_all

lemma found_append: "(\<And>b. rx_match r (b, t) \<noteq> []) \<Longrightarrow> found r (b, a @ t)"
proof (induction a arbitrary: b)
  case Nil
  then show ?case by (simp add: found_if_match)
next
  case (Cons x a)
  then show ?case by simp
qed

lemma found_sublist:
  assumes "sublist w line" and "\<And>b t. rx_match r (b, w @ t) \<noteq> []"
  shows "found r (b, line)"
proof -
  from assms(1) obtain ps ss where "line = ps @ w @ ss"
    by (auto simp: sublist_def)
  with assms(2) show ?thesis
    by (simp add: found_append)
qed

lemma rx_match_Seq_nonempty:
  "st' \<in> set (rx_match p st) \<Longrightarrow> rx_match q st' \<noteq> [] \<Longrightarrow> rx_match (Seq p q) st \<noteq> []"
  by (cases st) auto

lemma star_reaches: "list_all (in_cls k) m \<Longrightarrow> (False, t) \<in> set (star k (False, m @ t))"
proof (induction m)
  case Nil
  then show ?case by (cases t) simp_all
next
  case (Cons x m)
  then show ?case by simp
qed

lemma semicolon_flagged: "isJavaScriptLine (s @ str '';'')"
proof -
  have "found semicolon_rx (True, s @ str '';'')"
    by (rule found_append) (simp add: semicolon_rx_def str_def)
  then show ?thesis by (simp add: isJavaScriptLine_iff)
qed

lemma object_flagged:
  assumes "list_all (\<lambda>c. \<not> isLineTerminator c) m"
  shows "isJavaScriptLine (str ''{'' @ m @ str ''}'')"
proof -
  from assms have "list_all (in_cls Dot) m"
    by (simp add: list_all_iff)
  then have "(False, str ''}'') \<in> set (rx_match (Star Dot) (False, m @ str ''}''))"
    by (simp add: star_reaches)
  moreover have "rx_match (Seq (Lit (str ''}'')) Eol) (False, str ''}'') \<noteq> []"
    by (simp add: str_def)
  ultimately have "rx_match (Seq (Star Dot) (Seq (Lit (str ''}'')) Eol)) (False, m @ str ''}'') \<noteq> []"
    by (rule rx_match_Seq_nonempty)
  moreover have "(False, m @ str ''}'') \<in> set (rx_match (Lit (str ''{'')) (True, str ''{'' @ m @ str ''}''))"
    by (simp add: str_def)
  ultimately have "rx_match (Seq (Lit (str ''{'')) (Seq (Star Dot) (Seq (Lit (str ''}'')) Eol)))
      (True, str ''{'' @ m @ str ''}'') \<noteq> []"
    by (rule rx_match_Seq_nonempty [rotated])
  moreover have "(True, str ''{'' @ m @ str ''}'') \<in> set (rx_match Bol (True, str ''{'' @ m @ str ''}''))"
    by simp
  ultimately have "rx_match object_rx (True, str ''{'' @ m @ str ''}'') \<noteq> []"
    unfolding object_rx_def by (rule rx_match_Seq_nonempty [rotated])
  then have "found object_rx (True, str ''{'' @ m @ str ''}'')"
    by (rule found_if_match)
  then show ?thesis by (simp add: isJavaScriptLine_iff)
qed

lemma close_brace_flagged: "isJavaScriptLine (str ''}'')"
  by (simp add: eval_defs)

lemma substring_flagged:
  assumes "w \<in> set (map str [''jQuery'', ''console.log'', ''console.error'', ''console.warn'',
                              ''.then('', ''.catch('', ''async '', ''await ''])"
    and "sublist w line"
  shows "isJavaScriptLine line"
proof -
  have j: "\<And>b t. rx_match jquery_rx (b, str ''jQuery'' @ t) \<noteq> []"
    by (simp add: jquery_rx_def str_def)
  have c: "\<And>b t. rx_match console_rx (b, str ''console.log'' @ t) \<noteq> []"
    "\<And>b t. rx_match console_rx (b, str ''console.error'' @ t) \<noteq> []"
    "\<And>b t. rx_match console_rx (b, str ''console.warn'' @ t) \<noteq> []"
    by (simp_all add: console_rx_def str_def)
  have p: "\<And>b t. rx_match promise_rx (b, str ''.then('' @ t) \<noteq> []"
    "\<And>b t. rx_match promise_rx (b, str ''.catch('' @ t) \<noteq> []"
    "\<And>b t. rx_match promise_rx (b, str ''async '' @ t) \<noteq> []"
    "\<And>b t. rx_match promise_rx (b, str ''await '' @ t) \<noteq> []"
    by (simp_all add: promise_rx_def str_def isSpace_def isWhiteSpace_def)
  from assms(1) consider "w = str ''jQuery''"
    | "w = str ''console.log'' \<or> w = str ''console.error'' \<or> w = str ''console.warn''"
    | "w = str ''.then('' \<or> w = str ''.catch('' \<or> w = str ''async '' \<or> w = str ''await ''"
    by auto
  then have "found jquery_rx (True, line) \<or> found console_rx (True, line) \<or> found promise_rx (True, line)"
  proof cases
    case 1
    with assms(2) j have "found jquery_rx (True, line)"
      by (simp add: found_sublist)
    then show ?thesis by simp
  next
    case 2
    with assms(2) c have "found console_rx (True, line)"
      by (auto intro: found_sublist)
    then show ?thesis by simp
  next
    case 3
    with assms(2) p have "found promise_rx (True, line)"
      by (auto intro: found_sublist)
    then show ?thesis by simp
  qed
  then show ?thesis
    by (auto simp: isJavaScriptLine_iff)
qed

section \<open>The lines that survive\<close>

lemma hd_dropWhile_keeps:
  assumes "xs \<noteq> []" "\<not> P (hd xs)"
  shows "dropWhile P (rev (dropWhile P (rev xs))) = rev (dropWhile P (rev xs))"
proof -
  from assms obtain x ys where xs: "xs = x # ys" "\<not> P x"
    by (cases xs) auto
  then have "dropWhile P (rev ys @ [x]) = dropWhile P (rev ys) @ [x]"
    by (simp add: dropWhile_append)
  then have "rev (dropWhile P (rev xs)) = x # rev (dropWhile P (rev ys))"
    using xs by simp
  then show ?thesis using xs by simp
qed

lemma trim_idem: "trim (trim s) = trim s"
proof (cases "dropWhile isSpace s = []")
  case True
  have t: "trim s = []"
    unfolding trim_def True by simp
  show ?thesis
    unfolding t by (simp add: trim_def)
next
  case False
  let ?t = "dropWhile isSpace s"
  have "\<not> isSpace (hd ?t)"
    using False by (rule hd_dropWhile)
  with False have a: "dropWhile isSpace (rev (dropWhile isSpace (rev ?t))) = rev (dropWhile isSpace (rev ?t))"
    by (rule hd_dropWhile_keeps)
  have b: "dropWhile isSpace (dropWhile isSpace (rev ?t)) = dropWhile isSpace (rev ?t)"
    by (simp add: dropWhile_idem)
  show ?thesis
    unfolding trim_def a rev_rev_ident b ..
qed

lemma isJavaScriptLine_patterns:
  "isJavaScriptLine l = list_ex (\<lambda>R. fst (regexp_test R l)) jsPatterns"
  by (simp add: isJavaScriptLine_iff jsPatterns_def regexp_test_regex)

lemma lines_trimmed:
  assumes "l \<in> set (lines v block)"
  shows "trim l = l \<and> l \<noteq> []"
proof -
  from assms have "l \<in> set (filter (\<lambda>line. length line > 0) (map trim (split block newline_rx)))"
    by (cases v) auto
  then obtain r where "l = trim r" "l \<noteq> []"
    by auto
  then show ?thesis by (simp add: trim_idem)
qed

lemma lines_Ennovi_not_flagged:
  "l \<in> set (lines Ennovi block) \<Longrightarrow> \<not> isJavaScriptLine l"
  by simp

section \<open>Replacing with the patterns of the scripts\<close>

lemma replace_loop_char:
  "replace_loop (Lit [k]) rep (b, s) = concat (map (\<lambda>c. if c = k then rep else [c]) s)"
  by (induction s arbitrary: b) simp_all

lemma in_cls_Chr: "in_cls (Chr k) = (\<lambda>c. c = k)"
  by (rule ext) simp

lemma concat_singletons:
  "concat (map (\<lambda>c. if c = k then [r] else [c]) s) = map (\<lambda>c. if c = k then r else c) s"
  by (induction s) simp_all

lemma star_head: "\<exists>rest. star k (False, s) = (False, dropWhile (in_cls k) s) # rest"
  by (induction s) auto

lemma star_at_end:
  "concat (map (rx_match Eol) (star k (False, s))) = (if list_all (in_cls k) s then [(False, [])] else [])"
  by (induction s) (simp_all del: concat_eq_Nil_conv)

lemma underscores_match_inside:
  "rx_match underscores_rx (False, c # cs) =
     (if c = 0x5F \<and> list_all (\<lambda>x. x = 0x5F) cs then [(False, [])] else [])"
  using star_at_end [of "Chr 0x5F" cs]
  by (simp add: underscores_rx_def in_cls_Chr del: concat_eq_Nil_conv)

lemma underscores_match_nil: "rx_match underscores_rx (b, []) = []"
  by (simp add: underscores_rx_def)

lemma strip_end:
  "replace_loop underscores_rx [] (False, s) = rev (dropWhile (\<lambda>c. c = 0x5F) (rev s))"
proof (induction s)
  case Nil
  show ?case by (simp add: underscores_match_nil)
next
  case (Cons c cs)
  show ?case
  proof (cases "c = 0x5F \<and> list_all (\<lambda>x. x = 0x5F) cs")
    case True
    then have "dropWhile (\<lambda>c. c = 0x5F) (rev (c # cs)) = []"
      by (simp add: list_all_iff)
    with True show ?thesis
      by (simp add: underscores_match_inside underscores_match_nil del: rev.simps)
  next
    case False
    then have "dropWhile (\<lambda>c. c = 0x5F) (rev cs @ [c]) = dropWhile (\<lambda>c. c = 0x5F) (rev cs) @ [c]"
      by (auto simp: dropWhile_append list_all_iff)
    with False Cons show ?thesis
      by (auto simp: underscores_match_inside)
  qed
qed

lemma underscores_match_start:
  "\<exists>rest. rx_match underscores_rx (True, 0x5F # cs) = (False, dropWhile (\<lambda>c. c = 0x5F) cs) # rest"
  using star_head [of "Chr 0x5F" cs] by (auto simp: underscores_rx_def in_cls_Chr)

lemma underscores_no_match_start:
  "c \<noteq> 0x5F \<Longrightarrow> rx_match underscores_rx (True, c # cs) = []"
  by (simp add: underscores_rx_def)

lemma strip_both:
  "replace_loop underscores_rx [] (True, s) =
     rev (dropWhile (\<lambda>c. c = 0x5F) (rev (dropWhile (\<lambda>c. c = 0x5F) s)))"
proof (cases s)
  case Nil
  then show ?thesis by (simp add: underscores_match_nil)
next
  case (Cons c cs)
  show ?thesis
  proof (cases "c = 0x5F")
    case True
    obtain rest where "rx_match underscores_rx (True, 0x5F # cs) = (False, dropWhile (\<lambda>c. c = 0x5F) cs) # rest"
      using underscores_match_start by blast
    moreover have "length (dropWhile (\<lambda>c. c = 0x5F) cs) < Suc (length cs)"
      by (simp add: length_dropWhile_le less_Suc_eq_le)
    ultimately show ?thesis
      using True Cons by (simp add: strip_end)
  next
    case False
    then have "dropWhile (\<lambda>c. c = 0x5F) (rev cs @ [c]) = dropWhile (\<lambda>c. c = 0x5F) (rev cs) @ [c]"
      by (auto simp: dropWhile_append)
    with False Cons show ?thesis
      by (simp add: underscores_no_match_start strip_end)
  qed
qed

lemma pagePath_slug: "pagePath urlObj = slug_spec (pathname urlObj)"
proof -
  have "replace (pathname urlObj) (regex_g slash_rx) (str ''_'')
          = map (\<lambda>c. if c = 0x2F then 0x5F else c) (pathname urlObj)"
    by (simp add: replace_def regex_g_def slash_rx_def str_def replace_loop_char concat_singletons)
  then show ?thesis
    by (simp add: pagePath_def slug_spec_def replace_def regex_g_def strip_both)
qed

lemma csv_field_quoted: "csv_field line = quoted_spec line"
  by (simp add: csv_field_def dquote_def replace_def regex_g_def replace_loop_char quoted_spec_def)

section \<open>Isolation as one removal\<close>

lemma node_id_without: "node_id (without P n) = node_id n"
  by (cases n) simp_all

lemma matches_simple_without: "matches_simple q (without P n) s = matches_simple q n s"
  by (cases n; cases s) (simp_all add: classList_def)

lemma matches_without: "matches q sel (without P n) = matches q sel n"
proof -
  have "matches_simple q (without P n) = matches_simple q n"
    by (rule ext) (rule matches_simple_without)
  then show ?thesis by (simp add: matches_def)
qed

lemma remove_node_without: "remove_node x n = without (\<lambda>c. node_id c = x) n"
  by (induction x n rule: remove_node.induct) simp_all

lemma without_none: "without (\<lambda>c. False) t = t"
  by (induction t) (simp_all add: map_idI)

lemma without_without:
  assumes "\<And>c. P (without Q c) = P c"
  shows "without P (without Q n) = without (\<lambda>x. Q x \<or> P x) n"
proof (induction n)
  case (Element i t as cs)
  have "map (without P) (filter (\<lambda>c. \<not> P c) (map (without Q) (filter (\<lambda>c. \<not> Q c) cs)))
      = map (\<lambda>c. without P (without Q c)) (filter (\<lambda>c. \<not> (Q c \<or> P c)) cs)"
    by (simp add: filter_map o_def assms conj_commute)
  also have "\<dots> = map (without (\<lambda>x. Q x \<or> P x)) (filter (\<lambda>c. \<not> (Q c \<or> P c)) cs)"
    by (rule map_cong) (simp_all add: Element)
  finally show ?case by simp
qed simp_all

lemma foldl_remove_node:
  "foldl (\<lambda>t x. remove_node x t) t xs = without (\<lambda>c. node_id c \<in> set xs) t"
proof (induction xs arbitrary: t)
  case Nil
  show ?case by (simp add: without_none)
next
  case (Cons x xs)
  have h: "without (\<lambda>c. node_id c \<in> set xs) (without (\<lambda>c. node_id c = x) t)
      = without (\<lambda>c. node_id c = x \<or> node_id c \<in> set xs) t"
    by (rule without_without) (simp add: node_id_without)
  have "foldl (\<lambda>t x. remove_node x t) t (x # xs)
      = foldl (\<lambda>t x. remove_node x t) (remove_node x t) xs"
    by (simp only: foldl_Cons)
  also have "\<dots> = without (\<lambda>c. node_id c \<in> set xs) (remove_node x t)"
    by (rule Cons)
  also have "\<dots> = without (\<lambda>c. node_id c = x \<or> node_id c \<in> set xs) t"
    by (simp only: remove_node_without h)
  finally show ?case by simp
qed

lemma forEach_remove_eq:
  "forEach_remove xs d =
     \<lparr>page_el = without (\<lambda>c. node_id c \<in> set xs) (page_el d),
      clone = without (\<lambda>c. node_id c \<in> set xs) (clone d)\<rparr>"
proof -
  have "foldl (\<lambda>d x. remove_from_dom x d) d xs =
      \<lparr>page_el = foldl (\<lambda>t x. remove_node x t) (page_el d) xs,
       clone = foldl (\<lambda>t x. remove_node x t) (clone d) xs\<rparr>"
    by (induction xs arbitrary: d) (simp_all add: remove_from_dom_def)
  then show ?thesis
    by (simp add: forEach_remove_def foldl_remove_node)
qed

lemma descendants_child:
  "c \<in> set cs \<Longrightarrow> set (c # descendants c) \<subseteq> set (descendants (Element i t as cs))"
  by auto

lemma without_cong_desc:
  "(\<And>c. c \<in> set (descendants t) \<Longrightarrow> P c = Q c) \<Longrightarrow> without P t = without Q t"
proof (induction t)
  case (Element i t as cs)
  have same: "\<And>c. c \<in> set cs \<Longrightarrow> P c = Q c"
    using Element.prems by auto
  have sub: "\<And>c. c \<in> set cs \<Longrightarrow> without P c = without Q c"
  proof -
    fix c assume c: "c \<in> set cs"
    show "without P c = without Q c"
    proof (rule Element.IH [OF c])
      fix x assume "x \<in> set (descendants c)"
      with c have "x \<in> set (descendants (Element i t as cs))"
        by auto
      then show "P x = Q x" by (rule Element.prems)
    qed
  qed
  have "filter (\<lambda>c. \<not> P c) cs = filter (\<lambda>c. \<not> Q c) cs"
    by (rule filter_cong) (simp_all add: same)
  moreover have "map (without P) (filter (\<lambda>c. \<not> Q c) cs) = map (without Q) (filter (\<lambda>c. \<not> Q c) cs)"
    by (rule map_cong) (simp_all add: sub)
  ultimately show ?case by simp
qed simp_all

lemma qsa_member:
  assumes "distinct (ids t)" and "c \<in> set (descendants t)"
  shows "(node_id c \<in> set (querySelectorAll q sel t)) = matches q sel c"
proof
  assume "node_id c \<in> set (querySelectorAll q sel t)"
  then obtain d where d: "d \<in> set (descendants t)" "matches q sel d" "node_id d = node_id c"
    by (auto simp: querySelectorAll_def)
  from assms(1) have "inj_on node_id (set (descendants t))"
    by (simp add: ids_def distinct_map)
  with d assms(2) have "d = c"
    by (auto dest: inj_onD)
  with d show "matches q sel c" by simp
next
  assume "matches q sel c"
  with assms(2) show "node_id c \<in> set (querySelectorAll q sel t)"
    by (auto simp: querySelectorAll_def)
qed

lemma remove_matching:
  assumes "distinct (ids t)"
  shows "without (\<lambda>c. node_id c \<in> set (querySelectorAll q sel t)) t = without (matches q sel) t"
  by (rule without_cong_desc) (simp add: qsa_member [OF assms])

lemma subseq_distinct: "subseq xs ys \<Longrightarrow> distinct ys \<Longrightarrow> distinct xs"
proof (induction rule: list_emb.induct)
  case (list_emb_Nil ys)
  show ?case by simp
next
  case (list_emb_Cons xs ys y)
  then show ?case by simp
next
  case (list_emb_Cons2 x y xs ys)
  have "x \<notin> set xs"
  proof
    assume "x \<in> set xs"
    with list_emb_Cons2(2) obtain z where "z \<in> set ys" "x = z"
      by (rule list_emb_set)
    with list_emb_Cons2 show False by simp
  qed
  with list_emb_Cons2 show ?case by simp
qed

lemma subseq_concat_filter:
  "(\<And>c. c \<in> set cs \<Longrightarrow> subseq (f c) (g c)) \<Longrightarrow>
     subseq (concat (map f (filter Q cs))) (concat (map g cs))"
proof (induction cs)
  case Nil
  show ?case by simp
next
  case (Cons c cs)
  then have rest: "subseq (concat (map f (filter Q cs))) (concat (map g cs))"
    by simp
  show ?case
  proof (cases "Q c")
    case True
    have "subseq (f c @ concat (map f (filter Q cs))) (g c @ concat (map g cs))"
      using Cons.prems rest by (intro list_emb_append_mono) simp_all
    with True show ?thesis by simp
  next
    case False
    have "subseq (concat (map f (filter Q cs))) (g c @ concat (map g cs))"
      using rest by (rule list_emb_append2)
    with False show ?thesis by simp
  qed
qed

lemma ids_below_without:
  "subseq (map node_id (descendants (without P t))) (map node_id (descendants t))"
proof (induction t)
  case (Element i t as cs)
  have "subseq (concat (map (\<lambda>c. node_id c # map node_id (descendants (without P c)))
                          (filter (\<lambda>c. \<not> P c) cs)))
               (concat (map (\<lambda>c. node_id c # map node_id (descendants c)) cs))"
    by (rule subseq_concat_filter) (simp add: Element)
  then show ?case
    by (simp add: map_concat o_def node_id_without)
qed simp_all

lemma distinct_ids_without: "distinct (ids t) \<Longrightarrow> distinct (ids (without P t))"
proof -
  assume d: "distinct (ids t)"
  have s: "subseq (map node_id (descendants (without P t))) (map node_id (descendants t))"
    by (rule ids_below_without)
  have "set (map node_id (descendants (without P t))) \<subseteq> set (map node_id (descendants t))"
  proof
    fix x assume "x \<in> set (map node_id (descendants (without P t)))"
    with s obtain y where "y \<in> set (map node_id (descendants t))" "x = y"
      by (rule list_emb_set)
    then show "x \<in> set (map node_id (descendants t))" by simp
  qed
  moreover have "distinct (map node_id (descendants (without P t)))"
    using s d by (intro subseq_distinct [OF s]) (simp add: ids_def)
  ultimately show ?thesis
    using d by (auto simp: ids_def node_id_without)
qed






lemma remove_step_clone:
  assumes "distinct (ids (clone d))"
  shows "clone (forEach_remove (querySelectorAll q sel (clone d)) d) = without (matches q sel) (clone d)"
  by (simp add: forEach_remove_eq remove_matching [OF assms])

lemma node_id_relabel: "node_id (relabel f t) = f (node_id t)"
  by (cases t) simp_all

lemma descendants_relabel: "descendants (relabel f t) = map (relabel f) (descendants t)"
  by (induction t) (simp_all add: map_concat o_def cong: map_cong)

lemma ids_relabel: "ids (relabel f t) = map f (ids t)"
  by (simp add: ids_def node_id_relabel descendants_relabel o_def)




lemma clone_distinct: "distinct (ids el) \<Longrightarrow> distinct (ids (cloneNode el))"
  by (simp add: cloneNode_def ids_relabel distinct_map inj_on_def)

lemma descendant_text_relabel: "descendant_text (relabel f t) = descendant_text t"
  by (induction t) (simp_all add: o_def cong: map_cong)

lemma textContent_relabel: "textContent (relabel f t) = textContent t"
  by (cases t) (simp_all add: o_def descendant_text_relabel)

lemma without_relabel:
  assumes "\<And>c. P (relabel f c) = P c"
  shows "without P (relabel f t) = relabel f (without P t)"
  by (induction t) (simp_all add: filter_map o_def assms cong: map_cong)

lemma removable_spec_relabel: "removable_spec q (relabel f c) = removable_spec q c"
  by (cases c) (simp_all add: removable_spec_def has_class_def has_id_def classList_def)

lemma removable_spec_iff:
  "removable_spec q n =
     (((matches q scripts_sel n \<or> matches q headers_sel n) \<or> matches q footers_sel n)
      \<or> matches q hiddenSections_sel n)"
  by (auto simp: removable_spec_def matches_def scripts_sel_def headers_sel_def footers_sel_def
      hiddenSections_sel_def has_class_def has_id_def)


lemma remove_step_prunes:
  assumes "distinct (ids (clone d))"
  shows "clone (remove_all q sel d) = without (matches q sel) (clone d) \<and>
         distinct (ids (clone (remove_all q sel d)))"
  using assms by (simp add: remove_all_def remove_step_clone distinct_ids_without)


lemma extract_text_spec:
  assumes "distinct (ids el)"
  shows "fst (extract_text q el) = textContent (without (removable_spec q) el)"
proof -
  define d0 where "d0 = \<lparr>page_el = el, clone = cloneNode el\<rparr>"
  define d1 where "d1 = remove_all q scripts_sel d0"
  define d2 where "d2 = remove_all q headers_sel d1"
  define d3 where "d3 = remove_all q footers_sel d2"
  define d4 where "d4 = remove_all q hiddenSections_sel d3"
  have c0: "clone d0 = cloneNode el \<and> distinct (ids (clone d0))"
    using assms by (simp add: d0_def clone_distinct)
  have c1: "clone d1 = without (matches q scripts_sel) (clone d0) \<and> distinct (ids (clone d1))"
    unfolding d1_def by (rule remove_step_prunes) (rule conjunct2 [OF c0])
  have c2: "clone d2 = without (matches q headers_sel) (clone d1) \<and> distinct (ids (clone d2))"
    unfolding d2_def by (rule remove_step_prunes) (rule conjunct2 [OF c1])
  have c3: "clone d3 = without (matches q footers_sel) (clone d2) \<and> distinct (ids (clone d3))"
    unfolding d3_def by (rule remove_step_prunes) (rule conjunct2 [OF c2])
  have c4: "clone d4 = without (matches q hiddenSections_sel) (clone d3) \<and> distinct (ids (clone d4))"
    unfolding d4_def by (rule remove_step_prunes) (rule conjunct2 [OF c3])
  have "clone d4 = without (matches q hiddenSections_sel) (without (matches q footers_sel)
          (without (matches q headers_sel) (without (matches q scripts_sel) (cloneNode el))))"
    using c0 c1 c2 c3 c4 by simp
  also have "\<dots> = without (removable_spec q) (cloneNode el)"
    by (simp add: without_without matches_without removable_spec_iff [abs_def])
  also have "\<dots> = relabel (\<lambda>i. i + Suc (fold max (ids el) 0)) (without (removable_spec q) el)"
    unfolding cloneNode_def by (rule without_relabel) (rule removable_spec_relabel)
  finally have "textContent (clone d4) = textContent (without (removable_spec q) el)"
    by (simp add: textContent_relabel)
  moreover have "fst (extract_text q el) = textContent (clone d4)"
    by (simp add: extract_text_def Let_def d4_def d3_def d2_def d1_def d0_def)
  ultimately show ?thesis by simp
qed


section \<open>The loop over the target list\<close>

lemma visit_Ennovi:
  "visit Ennovi e st u =
     st\<lparr>written := written st @ artifact_of (scrape Ennovi e u),
        failedUrls := failedUrls st @ (case reason_of (scrape Ennovi e u) of
                                          None \<Rightarrow> []
                                        | Some r \<Rightarrow> [\<lparr>url = u, reason = r\<rparr>])\<rparr>"
  by (cases "scrape Ennovi e u") (simp_all add: writeFileSync_def push_failure_def)

lemma visit_Interplex:
  "visit Interplex e st u = st\<lparr>written := written st @ artifact_of (scrape Interplex e u)\<rparr>"
  by (cases "scrape Interplex e u") (simp_all add: writeFileSync_def)

lemma foldl_visit_Ennovi:
  "foldl (visit Ennovi e) st ws =
     st\<lparr>written := written st @ csv_artifacts Ennovi e ws,
        failedUrls := failedUrls st @ failed_spec e ws\<rparr>"
proof (induction ws arbitrary: st)
  case Nil
  show ?case by (simp add: csv_artifacts_def failed_spec_def)
next
  case (Cons u ws)
  show ?case
    by (simp only: foldl_Cons Cons)
       (simp add: visit_Ennovi csv_artifacts_def failed_spec_def del: visit.simps)
qed

lemma foldl_visit_Interplex:
  "foldl (visit Interplex e) st ws = st\<lparr>written := written st @ csv_artifacts Interplex e ws\<rparr>"
proof (induction ws arbitrary: st)
  case Nil
  show ?case by (simp add: csv_artifacts_def)
next
  case (Cons u ws)
  show ?case
    by (simp only: foldl_Cons Cons) (simp add: visit_Interplex csv_artifacts_def del: visit.simps)
qed

lemma run_Interplex:
  "run Interplex e ws = \<lparr>written = csv_artifacts Interplex e ws, failedUrls = []\<rparr>"
  by (simp add: foldl_visit_Interplex start_def csv_artifacts_def del: visit.simps)

lemma run_Ennovi:
  "run Ennovi e ws =
     \<lparr>written = csv_artifacts Ennovi e ws
                 @ (if failed_spec e ws = [] then []
                    else case write_error e (logFilePath e) (logContent (failed_spec e ws)) of
                           None \<Rightarrow> [(logFilePath e, logContent (failed_spec e ws))]
                         | Some message \<Rightarrow> []),
      failedUrls = failed_spec e ws\<rparr>"
  by (simp add: foldl_visit_Ennovi start_def csv_artifacts_def failed_spec_def writeFileSync_def
      Let_def del: visit.simps split: option.splits)

lemma failed_spec_urls:
  "map url (failed_spec e ws) = filter (\<lambda>u. artifact_of (scrape Ennovi e u) = []) ws"
proof (induction ws)
  case Nil
  show ?case by (simp add: failed_spec_def)
next
  case (Cons u ws)
  then show ?case
    by (cases "scrape Ennovi e u") (simp_all add: failed_spec_def)
qed

lemma sublist_prepend:
  assumes "sublist x ys"
  shows "sublist x (zs @ ys)"
proof -
  from assms obtain ps ss where "ys = ps @ x @ ss"
    by (auto simp: sublist_def)
  then have "zs @ ys = (zs @ ps) @ x @ ss"
    by simp
  show ?thesis
    unfolding \<open>zs @ ys = (zs @ ps) @ x @ ss\<close> by (rule sublist_appendI)
qed

lemma sublist_join: "x \<in> set xs \<Longrightarrow> sublist x (join sep xs)"
proof (induction sep xs rule: join.induct)
  case (1 sep)
  then show ?case by simp
next
  case (2 sep y)
  then show ?case by simp
next
  case (3 sep y z zs)
  show ?case
  proof (cases "x = y")
    case True
    then show ?thesis by (simp add: sublist_append_rightI)
  next
    case False
    with 3 have "sublist x (join sep (z # zs))"
      by simp
    then have "sublist x ((y @ sep) @ join sep (z # zs))"
      by (rule sublist_prepend)
    then show ?thesis by simp
  qed
qed

lemma log_lists_failure:
  assumes "item \<in> set failed"
  shows "sublist (log_block item) (logContent failed)"
proof -
  from assms have "log_block item \<in> log_block ` set failed"
    by (rule imageI)
  then have "log_block item \<in> set (map log_block failed)"
    by (simp only: set_map)
  then have "sublist (log_block item) (join newline (map log_block failed))"
    by (rule sublist_join)
  then have "sublist (log_block item)
      ((str ''Failed to scrape '' @ digits (length failed) @ str '' URL(s):'' @ newline @ newline)
        @ join newline (map log_block failed))"
    by (rule sublist_prepend)
  then show ?thesis
    by (simp add: logContent_def)
qed

lemma join_Cons: "join sep (x # xs) = x @ (if xs = [] then [] else sep @ join sep xs)"
  by (cases xs) simp_all

lemma join_append:
  "join sep (xs @ ys) = join sep xs @ (if xs = [] \<or> ys = [] then [] else sep) @ join sep ys"
proof (induction xs)
  case Nil
  show ?case by simp
next
  case (Cons x xs)
  show ?case
    by (simp only: append_Cons join_Cons Cons) simp
qed

lemma log_order:
  assumes "failed = xs @ a # ys @ b # zs"
  shows "\<exists>p q r. logContent failed = p @ log_block a @ q @ log_block b @ r"
proof -
  let ?f = "map log_block"
  have "join newline (?f failed)
      = (join newline (?f xs) @ (if xs = [] then [] else newline)) @ log_block a @
        (newline @ join newline (?f ys) @ (if ys = [] then [] else newline)) @ log_block b @
        (if zs = [] then [] else newline @ join newline (?f zs))"
    by (simp add: assms join_append join_Cons)
  then have "logContent failed
      = (str ''Failed to scrape '' @ digits (length failed) @ str '' URL(s):'' @ newline @ newline
         @ join newline (?f xs) @ (if xs = [] then [] else newline)) @ log_block a @
        (newline @ join newline (?f ys) @ (if ys = [] then [] else newline)) @ log_block b @
        (if zs = [] then [] else newline @ join newline (?f zs))"
    by (simp add: logContent_def)
  then show ?thesis by blast
qed

lemma scrape_Saved_path:
  "scrape v e u = Saved p c \<Longrightarrow> \<exists>urlObj. new_URL e u = Inr urlObj \<and> p = filePath v (outputDir e) urlObj"
  by (cases v)
     (auto simp: process_def save_def Let_def split: option.splits if_splits sum.splits)

lemma filePath_last: "last (filePath v d a) = 0x76"
  by (simp add: filePath_def str_def)

lemma logFilePath_last: "last (logFilePath e) = 0x74"
  by (simp add: logFilePath_def str_def)

lemma filePath_not_log: "filePath v d a \<noteq> logFilePath e"
proof
  assume "filePath v d a = logFilePath e"
  then have "last (filePath v d a) = last (logFilePath e)"
    by simp
  then show False
    by (simp add: filePath_last logFilePath_last)
qed

lemma filePath_pathname: "pathname a = pathname b \<Longrightarrow> filePath v d a = filePath v d b"
  by (simp add: filePath_def pagePath_def)

lemma csv_artifacts_snoc:
  "csv_artifacts v e (ws @ [u]) = csv_artifacts v e ws @ artifact_of (scrape v e u)"
  by (simp add: csv_artifacts_def)

lemma files_run_last:
  assumes "scrape v e ub = Saved pb cb"
  shows "files (run v e (ws @ [ub])) pb = Some cb"
proof (cases v)
  case Interplex
  with assms show ?thesis
    by (simp add: files_def run_Interplex csv_artifacts_snoc del: run.simps)
next
  case Ennovi
  from assms obtain urlObj where "pb = filePath v (outputDir e) urlObj"
    using scrape_Saved_path by blast
  then have "pb \<noteq> logFilePath e"
    by (simp add: filePath_not_log)
  with assms Ennovi show ?thesis
    by (simp add: files_def run_Ennovi csv_artifacts_snoc del: run.simps split: option.splits)
qed

lemma written_run_mem:
  assumes "scrape v e ua = Saved pa ca" "ua \<in> set ws"
  shows "(pa, ca) \<in> set (written (run v e ws))"
proof -
  from assms have "(pa, ca) \<in> set (csv_artifacts v e ws)"
    by (force simp: csv_artifacts_def)
  then show ?thesis
    by (cases v) (simp_all add: run_Interplex run_Ennovi del: run.simps)
qed

lemma contentText_Ennovi_spec:
  "distinct (ids el) \<Longrightarrow>
     contentText Ennovi e u el = textContent (without (removable_spec (quirksMode e u)) el)"
  by (simp add: extract_text_spec)

lemmas demo_defs =
  demo_env_def url_a_def url_b_def url_down_def url_none_def url_code_def url_gone_def
  process_def save_def contentHandle_def contentText_Ennovi_spec ids_def removable_spec_def
  has_class_def has_id_def classList_def isAsciiWhitespace_def same_name_def filePath_def
  pagePath_slug slug_spec_def csv_field_quoted quoted_spec_def header_row_def dquote_def BOM_def

lemma demo_scrape_a:
  "scrape Ennovi demo_env url_a =
     Saved (str ''scraped_text/ennovi_p_content.csv'')
           (BOM @ header_row @ newline @ quoted_spec (str ''Page A''))"
  by (simp add: demo_defs eval_defs del: contentText.simps)

lemma demo_scrape_b:
  "scrape Ennovi demo_env url_b =
     Saved (str ''scraped_text/ennovi_p_content.csv'')
           (BOM @ header_row @ newline @ quoted_spec (str ''Page B''))"
  by (simp add: demo_defs eval_defs del: contentText.simps)

lemma demo_scrape_failures:
  "scrape Ennovi demo_env url_down = Threw (str ''Timeout 10000ms exceeded'') \<and>
   scrape Ennovi demo_env url_code = NoText \<and>
   scrape Ennovi demo_env url_none = NoContainer \<and>
   scrape Ennovi demo_env url_gone = Threw (str ''Execution context was destroyed'')"
  by (simp add: demo_defs eval_defs del: contentText.simps)

section \<open>The claims\<close>

text \<open>
  C8. The code-line classifier is a deterministic function of its line. None of the
  twelve patterns has the \<open>g\<close> flag, so testing a line leaves every pattern object as it
  was: classifying the same line a second time, even with the very same pattern objects,
  gives the verdict of the first time.
\<close>

theorem classifier_deterministic:
  "snd (some_test jsPatterns line) = jsPatterns \<and>
   fst (some_test (snd (some_test jsPatterns line)) line) = isJavaScriptLine line"
  by (simp add: some_test_jsPatterns)

theorem classifier_deterministic_witness:
  "snd (some_test jsPatterns (str ''return x;'')) = jsPatterns \<and>
   fst (some_test (snd (some_test jsPatterns (str ''return x;''))) (str ''return x;''))
   \<and> isJavaScriptLine (str ''return x;'')"
proof -
  have "isJavaScriptLine (str ''return x;'')"
    by (simp add: eval_defs)
  then show ?thesis
    using classifier_deterministic [of "str ''return x;''"] by (simp add: isJavaScriptLine_def)
qed

text \<open>
  C1. The text whose lines are \<open>Welcome\<close>, an empty line, a line of two spaces,
  \<open>function foo() {\<close> and \<open>Contact us\<close> splits into these five lines, and the script
  with the classifier keeps exactly \<open>Welcome\<close> and \<open>Contact us\<close>, in this order.
\<close>

theorem scenario_welcome_contact:
  "split (join newline
            [str ''Welcome'', [], str ''  '', str ''function foo() {'', str ''Contact us''])
         newline_rx
     = [str ''Welcome'', [], str ''  '', str ''function foo() {'', str ''Contact us''] \<and>
   lines Ennovi
     (join newline [str ''Welcome'', [], str ''  '', str ''function foo() {'', str ''Contact us''])
     = [str ''Welcome'', str ''Contact us'']"
  by (simp add: eval_defs)

text \<open>
  C3 (as amended). The classifier flags a line that is exactly a closing brace, every
  line that ends in a semicolon, and every line that starts with an opening brace and
  ends with a closing brace with no line terminator between them.
\<close>

theorem classifier_braces_semicolon:
  "isJavaScriptLine (str ''}'') \<and> isJavaScriptLine (s @ str '';'') \<and>
   (list_all (\<lambda>c. \<not> isLineTerminator c) m \<longrightarrow> isJavaScriptLine (str ''{'' @ m @ str ''}''))"
  using semicolon_flagged object_flagged close_brace_flagged by blast

theorem classifier_braces_semicolon_witness:
  "isJavaScriptLine (str ''}'') \<and> isJavaScriptLine (str ''x = 1'' @ str '';'') \<and>
   list_all (\<lambda>c. \<not> isLineTerminator c) (str '' a: 1 '') \<and>
   isJavaScriptLine (str ''{'' @ str '' a: 1 '' @ str ''}'')"
proof -
  have h: "list_all (\<lambda>c. \<not> isLineTerminator c) (str '' a: 1 '')"
    by (simp add: str_def isLineTerminator_def)
  with classifier_braces_semicolon [of "str ''x = 1''" "str '' a: 1 ''"] show ?thesis
    by blast
qed

text \<open>
  C3 as stated fails: no pattern matches the line that is exactly an opening brace.
\<close>

theorem opening_brace_not_flagged: "\<not> isJavaScriptLine (str ''{'')"
  by (simp add: eval_defs)

text \<open>
  C2 (as amended). In both scripts every surviving line is its own trimmed form and is
  not empty. In the script that has the classifier (the \<open>ennovi_\<close> files) a surviving
  line is moreover not flagged: none of the twelve patterns matches it.
\<close>

theorem surviving_lines:
  "l \<in> set (lines v block) \<Longrightarrow>
     trim l = l \<and> l \<noteq> [] \<and>
     (v = Ennovi \<longrightarrow> \<not> isJavaScriptLine l \<and> list_all (\<lambda>R. \<not> fst (regexp_test R l)) jsPatterns)"
  using lines_trimmed [of l v block] lines_Ennovi_not_flagged [of l block]
  by (auto simp: isJavaScriptLine_patterns list_ex_iff list_all_iff)

theorem surviving_lines_witness:
  "str ''Hello'' \<in> set (lines Ennovi (str ''  Hello  '' @ newline @ str ''var x;'')) \<and>
   trim (str ''Hello'') = str ''Hello'' \<and> str ''Hello'' \<noteq> [] \<and>
   \<not> isJavaScriptLine (str ''Hello'') \<and>
   list_all (\<lambda>R. \<not> fst (regexp_test R (str ''Hello''))) jsPatterns"
proof -
  have h: "str ''Hello'' \<in> set (lines Ennovi (str ''  Hello  '' @ newline @ str ''var x;''))"
    by (simp add: eval_defs)
  from surviving_lines [OF h] h show ?thesis by simp
qed

text \<open>
  C2 as stated fails for \<open>textScraper.js\<close>, which has no classifier: the line
  \<open>var x = 1;\<close> survives there although the keyword pattern matches it.
\<close>

theorem interplex_keeps_code_lines:
  "str ''var x = 1;'' \<in> set (lines Interplex (str ''var x = 1;'')) \<and>
   isJavaScriptLine (str ''var x = 1;'') \<and>
   fst (regexp_test (regex keyword_rx) (str ''var x = 1;'')) \<and>
   regex keyword_rx \<in> set jsPatterns"
  by (simp add: eval_defs regexp_test_regex jsPatterns_def)

text \<open>
  C10. A line that contains \<open>jQuery\<close>, \<open>console.log\<close>, \<open>console.error\<close>,
  \<open>console.warn\<close>, \<open>.then(\<close>, \<open>.catch(\<close>, \<open>async\<close> and a space, or \<open>await\<close> and
  a space, anywhere in it, is flagged as code, and is no line of the extraction result
  of the script with the classifier.
\<close>

theorem substrings_flagged_and_removed:
  "w \<in> set (map str [''jQuery'', ''console.log'', ''console.error'', ''console.warn'',
                       ''.then('', ''.catch('', ''async '', ''await '']) \<Longrightarrow>
   sublist w line \<Longrightarrow>
   isJavaScriptLine line \<and> line \<notin> set (lines Ennovi block)"
  using substring_flagged [of w line] by simp

theorem substrings_flagged_and_removed_witness:
  "str ''await '' \<in> set (map str [''jQuery'', ''console.log'', ''console.error'', ''console.warn'',
                       ''.then('', ''.catch('', ''async '', ''await '']) \<and>
   sublist (str ''await '') (str ''Please await our reply'') \<and>
   isJavaScriptLine (str ''Please await our reply'') \<and>
   str ''Please await our reply'' \<notin> set (lines Ennovi (str ''Please await our reply''))"
proof -
  have a: "str ''await '' \<in> set (map str [''jQuery'', ''console.log'', ''console.error'', ''console.warn'',
                       ''.then('', ''.catch('', ''async '', ''await ''])"
    by simp
  have "str ''Please await our reply'' = str ''Please '' @ str ''await '' @ str ''our reply''"
    by (simp add: str_def)
  then have b: "sublist (str ''await '') (str ''Please await our reply'')"
    unfolding sublist_def by blast
  from substrings_flagged_and_removed [OF a b, of "str ''Please await our reply''"] a b
  show ?thesis by simp
qed

text \<open>
  C5. The slug that names the CSV file is the URL path with every \<open>/\<close> replaced by \<open>_\<close>
  and the underscores at both ends stripped, \<open>homepage\<close> when nothing is left: the path
  \<open>/\<close> gives \<open>homepage\<close>, \<open>/about/team\<close> gives \<open>about_team\<close> and \<open>///a//\<close> gives \<open>a\<close>.
\<close>

theorem slug_of_path:
  "pagePath urlObj = slug_spec (pathname urlObj) \<and>
   pagePath \<lparr>protocol = str ''https:'', host = str ''example.com'', pathname = str ''/'',
             search = [], hash = []\<rparr> = str ''homepage'' \<and>
   pagePath \<lparr>protocol = str ''https:'', host = str ''example.com'', pathname = str ''/about/team'',
             search = [], hash = []\<rparr> = str ''about_team'' \<and>
   pagePath \<lparr>protocol = str ''https:'', host = str ''example.com'', pathname = str ''///a//'',
             search = [], hash = []\<rparr> = str ''a''"
  by (simp add: pagePath_slug) (simp add: slug_spec_def str_def)

text \<open>
  C6 (as amended). The CSV content is the header row \<open>"Extracted Text"\<close>, a line break,
  and the extracted lines separated by line breaks, each between double quotes with its
  own double quotes doubled, in both scripts; \<open>She said "hi"\<close> becomes
  \<open>"She said ""hi"""\<close>. In \<open>textScraper.js\<close> the content begins with the header row; in
  the other script it begins with the byte-order mark U+FEFF, which the header row
  follows.
\<close>

theorem csv_layout:
  "csvContent Interplex ls = header_row @ newline @ join newline (map csv_field ls) \<and>
   csvContent Ennovi ls = BOM @ header_row @ newline @ join newline (map csv_field ls) \<and>
   prefix header_row (csvContent Interplex ls) \<and>
   prefix (BOM @ header_row) (csvContent Ennovi ls) \<and>
   header_row = [0x22] @ str ''Extracted Text'' @ [0x22] \<and>
   csv_field line = quoted_spec line \<and>
   csv_field (str ''She said '' @ [0x22] @ str ''hi'' @ [0x22])
     = [0x22] @ str ''She said '' @ [0x22, 0x22] @ str ''hi'' @ [0x22, 0x22] @ [0x22]"
  by (simp add: csv_field_quoted header_row_def dquote_def) (simp add: quoted_spec_def str_def)

text \<open>
  C6 as stated fails for the script that writes the \<open>ennovi_\<close> files: its CSV content
  does not begin with the header row, its first code unit is U+FEFF.
\<close>

theorem ennovi_csv_begins_with_BOM:
  "\<not> prefix header_row (csvContent Ennovi [str ''Welcome'']) \<and>
   hd (csvContent Ennovi [str ''Welcome'']) = 0xFEFF \<and>
   hd header_row = 0x22"
  by (simp add: header_row_def dquote_def BOM_def)

text \<open>
  C4. In the script that keeps \<open>failedUrls\<close>, a run writes the CSV artifacts of the URLs
  whose pass ends in a written file and then, if any URL failed and the write succeeds,
  the failure log. A pass fails when any step of the \<open>try\<close> block throws (navigation,
  stabilization, \<open>page.$\<close>, \<open>evaluate\<close>, \<open>new URL\<close>, the write of the CSV), when no
  container is found, or when no line is left. The failure records are, in the order of
  the target list, exactly the URLs that produced no CSV artifact, each with the reason
  of its failure: the message of the exception, \<open>No matching Elementor div found\<close> or
  \<open>No visible text found\<close>. The log is the count line, an empty line, and the blocks
  \<open>URL:\<close>, \<open>Reason:\<close> of the records joined by line breaks: every record's block is in
  it, and the block of an earlier record stands before that of a later one.
  \<open>textScraper.js\<close> writes CSV artifacts only, never a failure log.
\<close>

theorem failure_log_complete:
  "written (run Ennovi e ws) =
     csv_artifacts Ennovi e ws
     @ (if failed_spec e ws = [] then []
        else case write_error e (logFilePath e) (logContent (failed_spec e ws)) of
               None \<Rightarrow> [(logFilePath e, logContent (failed_spec e ws))]
             | Some message \<Rightarrow> []) \<and>
   failedUrls (run Ennovi e ws) = failed_spec e ws \<and>
   map url (failed_spec e ws) = filter (\<lambda>u. artifact_of (scrape Ennovi e u) = []) ws \<and>
   list_all (\<lambda>item. reason_of (scrape Ennovi e (url item)) = Some (reason item)) (failed_spec e ws) \<and>
   logContent (failed_spec e ws) =
     str ''Failed to scrape '' @ digits (length (failed_spec e ws)) @ str '' URL(s):''
     @ newline @ newline
     @ join newline
         (map (\<lambda>item. str ''URL: '' @ url item @ newline @ str ''Reason: '' @ reason item @ newline)
            (failed_spec e ws)) \<and>
   (failed_spec e ws = xs @ a # ys @ b # zs \<longrightarrow>
      (\<exists>p q r. logContent (failed_spec e ws) = p @ log_block a @ q @ log_block b @ r)) \<and>
   list_all (\<lambda>item. sublist (str ''URL: '' @ url item @ newline @ str ''Reason: '' @ reason item
                                  @ newline)
                         (logContent (failed_spec e ws))) (failed_spec e ws) \<and>
   reason_of NoContainer \<noteq> reason_of NoText \<and>
   written (run Interplex e ws) = csv_artifacts Interplex e ws"
proof -
  have "list_all (\<lambda>item. reason_of (scrape Ennovi e (url item)) = Some (reason item)) (failed_spec e ws)"
    by (induction ws) (auto simp: failed_spec_def split: option.splits)
  moreover have "list_all (\<lambda>item. sublist (str ''URL: '' @ url item @ newline @ str ''Reason: ''
                                            @ reason item @ newline)
                              (logContent (failed_spec e ws))) (failed_spec e ws)"
    using log_lists_failure [of _ "failed_spec e ws"]
    by (simp only: list_all_iff log_block_def) blast
  moreover have "reason_of NoContainer \<noteq> reason_of NoText"
    by (simp add: str_def)
  moreover have "failed_spec e ws = xs @ a # ys @ b # zs \<longrightarrow>
      (\<exists>p q r. logContent (failed_spec e ws) = p @ log_block a @ q @ log_block b @ r)"
    using log_order by blast
  moreover have "logContent (failed_spec e ws) =
     str ''Failed to scrape '' @ digits (length (failed_spec e ws)) @ str '' URL(s):''
     @ newline @ newline
     @ join newline
         (map (\<lambda>item. str ''URL: '' @ url item @ newline @ str ''Reason: '' @ reason item @ newline)
            (failed_spec e ws))"
    by (simp add: logContent_def log_block_def [abs_def])
  ultimately show ?thesis
    by (simp only: run_Ennovi run_Interplex failed_spec_urls run_state.simps simp_thms)
qed

theorem failure_log_complete_witness:
  "failed_spec demo_env [url_a, url_down, url_code, url_none, url_gone, url_b]
     = [] @ \<lparr>url = url_down, reason = str ''Timeout 10000ms exceeded''\<rparr>
          # [\<lparr>url = url_code, reason = str ''No visible text found''\<rparr>]
          @ \<lparr>url = url_none, reason = str ''No matching Elementor div found''\<rparr>
          # [\<lparr>url = url_gone, reason = str ''Execution context was destroyed''\<rparr>] \<and>
   (\<exists>p q r. logContent (failed_spec demo_env [url_a, url_down, url_code, url_none, url_gone, url_b])
      = p @ log_block \<lparr>url = url_down, reason = str ''Timeout 10000ms exceeded''\<rparr>
        @ q @ log_block \<lparr>url = url_none, reason = str ''No matching Elementor div found''\<rparr> @ r) \<and>
   failedUrls (run Ennovi demo_env [url_a, url_down, url_code, url_none, url_gone, url_b])
     = [\<lparr>url = url_down, reason = str ''Timeout 10000ms exceeded''\<rparr>,
        \<lparr>url = url_code, reason = str ''No visible text found''\<rparr>,
        \<lparr>url = url_none, reason = str ''No matching Elementor div found''\<rparr>,
        \<lparr>url = url_gone, reason = str ''Execution context was destroyed''\<rparr>] \<and>
   map fst (written (run Ennovi demo_env [url_a, url_down, url_code, url_none, url_gone, url_b]))
     = [str ''scraped_text/ennovi_p_content.csv'', str ''scraped_text/ennovi_p_content.csv'',
        logFilePath demo_env]"
proof -
  let ?ws = "[url_a, url_down, url_code, url_none, url_gone, url_b]"
  let ?a = "\<lparr>url = url_down, reason = str ''Timeout 10000ms exceeded''\<rparr>"
  let ?b = "\<lparr>url = url_none, reason = str ''No matching Elementor div found''\<rparr>"
  let ?ys = "[\<lparr>url = url_code, reason = str ''No visible text found''\<rparr>]"
  let ?zs = "[\<lparr>url = url_gone, reason = str ''Execution context was destroyed''\<rparr>]"
  have f: "failed_spec demo_env ?ws = [] @ ?a # ?ys @ ?b # ?zs"
    by (simp add: failed_spec_def demo_scrape_a demo_scrape_b demo_scrape_failures
        del: scrape.simps)
  have c: "map fst (csv_artifacts Ennovi demo_env ?ws)
     = [str ''scraped_text/ennovi_p_content.csv'', str ''scraped_text/ennovi_p_content.csv'']"
    by (simp add: csv_artifacts_def demo_scrape_a demo_scrape_b demo_scrape_failures
        del: scrape.simps)
  have w: "write_error demo_env p x = None" for p x
    by (simp add: demo_env_def)
  note r = failure_log_complete [of demo_env ?ws "[]" ?a ?ys ?b ?zs]
  from r f have o: "\<exists>p q r. logContent (failed_spec demo_env ?ws) = p @ log_block ?a @ q @ log_block ?b @ r"
    by blast
  from r have "failedUrls (run Ennovi demo_env ?ws) = failed_spec demo_env ?ws"
    by blast
  with f have fu: "failedUrls (run Ennovi demo_env ?ws) = [?a] @ ?ys @ [?b] @ ?zs"
    by simp
  from r have "written (run Ennovi demo_env ?ws) =
     csv_artifacts Ennovi demo_env ?ws
     @ (if failed_spec demo_env ?ws = [] then []
        else case write_error demo_env (logFilePath demo_env) (logContent (failed_spec demo_env ?ws)) of
               None \<Rightarrow> [(logFilePath demo_env, logContent (failed_spec demo_env ?ws))]
             | Some message \<Rightarrow> [])"
    by blast
  then have "map fst (written (run Ennovi demo_env ?ws))
      = map fst (csv_artifacts Ennovi demo_env ?ws) @ [logFilePath demo_env]"
    by (simp add: f w del: run.simps)
  with c have wr: "map fst (written (run Ennovi demo_env ?ws))
     = [str ''scraped_text/ennovi_p_content.csv'', str ''scraped_text/ennovi_p_content.csv'',
        logFilePath demo_env]"
    by simp
  from f o fu wr show ?thesis
    by (simp del: run.simps)
qed

text \<open>
  C9. The path of the CSV file depends on the URL through its path component only: two
  URLs with the same path, whatever their host, query and fragment, get the same file
  path, and when both are scraped successfully the file holds the CSV of the later one
  at the end of the run, although the earlier one was written too.
\<close>

theorem same_path_overwrites:
  assumes "new_URL e ua = Inr a" and "new_URL e ub = Inr b" and "pathname a = pathname b"
    and "scrape v e ua = Saved pa ca" and "scrape v e ub = Saved pb cb" and "ua \<in> set ws"
  shows "filePath v (outputDir e) a = filePath v (outputDir e) b \<and>
         pa = filePath v (outputDir e) a \<and> pb = pa \<and>
         (pa, ca) \<in> set (written (run v e (ws @ [ub]))) \<and>
         files (run v e (ws @ [ub])) pa = Some cb"
proof -
  have eq: "filePath v (outputDir e) a = filePath v (outputDir e) b"
    using assms(3) by (rule filePath_pathname)
  have pa: "pa = filePath v (outputDir e) a"
    using scrape_Saved_path [OF assms(4)] assms(1) by auto
  have pb: "pb = filePath v (outputDir e) b"
    using scrape_Saved_path [OF assms(5)] assms(2) by auto
  have "(pa, ca) \<in> set (written (run v e (ws @ [ub])))"
    using assms(4,6) by (intro written_run_mem) auto
  moreover have "files (run v e (ws @ [ub])) pb = Some cb"
    using assms(5) by (rule files_run_last)
  ultimately show ?thesis
    using eq pa pb by simp
qed

theorem same_path_overwrites_witness:
  "pathname \<lparr>protocol = str ''https:'', host = str ''a.example'', pathname = str ''/p'',
              search = str ''?x=1'', hash = []\<rparr>
     = pathname \<lparr>protocol = str ''https:'', host = str ''b.example'', pathname = str ''/p'',
                  search = [], hash = str ''#top''\<rparr> \<and>
   url_a \<in> set [url_a, url_down] \<and>
   (str ''scraped_text/ennovi_p_content.csv'',
    BOM @ header_row @ newline @ quoted_spec (str ''Page A''))
     \<in> set (written (run Ennovi demo_env ([url_a, url_down] @ [url_b]))) \<and>
   files (run Ennovi demo_env ([url_a, url_down] @ [url_b])) (str ''scraped_text/ennovi_p_content.csv'')
     = Some (BOM @ header_row @ newline @ quoted_spec (str ''Page B''))"
proof -
  have a: "new_URL demo_env url_a =
      Inr \<lparr>protocol = str ''https:'', host = str ''a.example'', pathname = str ''/p'',
           search = str ''?x=1'', hash = []\<rparr>"
    by (simp add: demo_env_def)
  have b: "new_URL demo_env url_b =
      Inr \<lparr>protocol = str ''https:'', host = str ''b.example'', pathname = str ''/p'',
           search = [], hash = str ''#top''\<rparr>"
    by (simp add: demo_env_def url_a_def url_b_def str_def)
  have p: "pathname \<lparr>protocol = str ''https:'', host = str ''a.example'', pathname = str ''/p'',
              search = str ''?x=1'', hash = []\<rparr>
     = pathname \<lparr>protocol = str ''https:'', host = str ''b.example'', pathname = str ''/p'',
                  search = [], hash = str ''#top''\<rparr>"
    by simp
  have m: "url_a \<in> set [url_a, url_down]"
    by simp
  note r = same_path_overwrites [OF a b p demo_scrape_a demo_scrape_b m]
  show ?thesis
    by (intro conjI p m r [THEN conjunct2, THEN conjunct2, THEN conjunct2, THEN conjunct1]
        r [THEN conjunct2, THEN conjunct2, THEN conjunct2, THEN conjunct2])
qed




end
